theory Spec2Isabelle
  imports Main "HOL-Library.Word"
begin

section \<open>Data model\<close>

text \<open>
  The Go package \<^verbatim>\<open>llm\<close> is embedded shallowly. Conventions used throughout:
  \<^item> a Go function returning \<^verbatim>\<open>(T, error)\<close> returns a pair whose second component is an
    \<open>error option\<close>; \<open>None\<close> is the \<^verbatim>\<open>nil\<close> error;
  \<^item> a Go slice is a list and a Go map is a partial function; the \<^verbatim>\<open>nil\<close> slice and the
    \<^verbatim>\<open>nil\<close> map are the empty list and the empty map (the code only takes \<^verbatim>\<open>len\<close> of
    them, indexes them and ranges over them);
  \<^item> Go's \<^verbatim>\<open>int\<close> is \<open>int\<close>: the code compares such values and never does arithmetic
    on them;
  \<^item> a \<^verbatim>\<open>float64\<close> is its 64-bit pattern: the code stores and returns such values and never
    computes with them;
  \<^item> the \<^verbatim>\<open>context.Context\<close> is a value of a type parameter \<open>'c\<close>, handed unchanged to
    every backend call;
  \<^item> a method of an external collaborator (a \<^verbatim>\<open>Provider\<close>, the \<^verbatim>\<open>Service\<close> behind an
    embedder) is a function of its arguments.
\<close>

type_synonym float64 = "64 word"
type_synonym byte = "8 word"
type_synonym vector = "float64 list"

text \<open>
  The errors the package builds with \<^verbatim>\<open>fmt.Errorf\<close>, one constructor for each format string;
  \<^verbatim>\<open>%w\<close> wraps the cause, which the constructor keeps. \<open>BackendFailure\<close> is an error
  that a provider made.
\<close>

datatype error =
    InvalidArgument string           \<comment> \<open>\<^verbatim>\<open>"provider cannot be nil"\<close>, \<^verbatim>\<open>"provider name cannot be empty"\<close>\<close>
  | AlreadyRegistered string         \<comment> \<open>\<^verbatim>\<open>"provider %s already registered"\<close>\<close>
  | NotFound string                  \<comment> \<open>\<^verbatim>\<open>"provider %s not found"\<close>\<close>
  | ListModelsFailed string error    \<comment> \<open>\<^verbatim>\<open>"failed to list models for provider %s: %w"\<close>\<close>
  | UnsupportedType                  \<comment> \<open>\<^verbatim>\<open>"unsupported content type"\<close>\<close>
  | EmbeddingFailed error            \<comment> \<open>\<^verbatim>\<open>"failed to get embedding: %w"\<close>\<close>
  | DimensionMismatch int int        \<comment> \<open>\<^verbatim>\<open>"expected embedding dimension %d, got %d"\<close>\<close>
  | BatchFailed error                \<comment> \<open>\<^verbatim>\<open>"batch embedding failed: %w"\<close>\<close>
  | BackendFailure string

text \<open>
  A value of type \<^verbatim>\<open>interface{}\<close>, by the dynamic types that the type switch of
  \<^verbatim>\<open>Embed\<close> tells apart. \<open>Stringer_val t\<close> is a value whose type has a \<^verbatim>\<open>String()\<close>
  method and is neither \<^verbatim>\<open>string\<close> nor \<^verbatim>\<open>[]byte\<close>; \<open>t\<close> is what the method returns.
  \<open>Other_val k\<close> is a value of any further type without that method.
\<close>

datatype content =
    String_val string
  | Bytes_val "byte list"
  | Stringer_val string
  | Int_val int
  | Nil_val
  | Other_val nat

record ModelInfo =
  Name :: string
  ContextWindowSize :: int
  MaxOutputTokens :: int
  SupportsImageInput :: bool
  SupportsAudioInput :: bool
  SupportsVisionOutput :: bool
  PricingPerInputToken :: float64
  PricingPerOutputToken :: float64

record Usage =
  PromptTokens :: int
  CompletionTokens :: int
  TotalTokens :: int

record EmbeddingRequest =
  Input :: string
  Model :: string
  Metadata :: "string \<rightharpoonup> content"

record EmbeddingResponse =
  Embedding :: vector
  Usage :: Usage
  Response_Metadata :: "string \<rightharpoonup> content"

text \<open>
  The \<^verbatim>\<open>Provider\<close> interface, as the record of the methods the registry calls. The
  zero value of a response is what a method returns beside an error.
\<close>

record 'c Provider =
  Provider_Name :: string
  Provider_ListModels :: "'c \<Rightarrow> ModelInfo list \<times> error option"
  Provider_Embed :: "'c \<Rightarrow> string \<Rightarrow> EmbeddingRequest \<Rightarrow> EmbeddingResponse \<times> error option"

definition zero_Usage :: Usage where
  "zero_Usage = \<lparr>PromptTokens = 0, CompletionTokens = 0, TotalTokens = 0\<rparr>"

definition zero_EmbeddingResponse :: EmbeddingResponse where
  "zero_EmbeddingResponse = \<lparr>Embedding = [], Usage = zero_Usage, Response_Metadata = Map.empty\<rparr>"

section \<open>The registry service (service.go)\<close>

text \<open>
  The struct \<^verbatim>\<open>service\<close>. Its mutex is not a field of the model: every method below runs
  its critical section as one step, and a method that changes the registry returns the new
  registry.
\<close>

record 'c service =
  providers :: "string \<rightharpoonup> 'c Provider"

definition NewService :: "'c service" where
  "NewService = \<lparr>providers = Map.empty\<rparr>"

text \<open>The argument \<open>None\<close> is the \<^verbatim>\<open>nil\<close> provider.\<close>

definition RegisterProvider :: "'c service \<Rightarrow> 'c Provider option \<Rightarrow> 'c service \<times> error option" where
  "RegisterProvider s provider =
     (case provider of
        None \<Rightarrow> (s, Some (InvalidArgument ''provider cannot be nil''))
      | Some p \<Rightarrow>
          (let name = Provider_Name p in
           if name = [] then (s, Some (InvalidArgument ''provider name cannot be empty''))
           else if providers s name \<noteq> None then (s, Some (AlreadyRegistered name))
           else (s\<lparr>providers := (providers s)(name \<mapsto> p)\<rparr>, None)))"

definition GetProvider :: "'c service \<Rightarrow> string \<Rightarrow> 'c Provider option \<times> error option" where
  "GetProvider s name =
     (case providers s name of
        None \<Rightarrow> (None, Some (NotFound name))
      | Some provider \<Rightarrow> (Some provider, None))"

text \<open>
  Go visits the keys of a map in an order that it does not specify and that may differ from
  one \<^verbatim>\<open>range\<close> loop to the next. A loop over a map is therefore a recursion over a list
  \<open>ks\<close> of keys, a parameter of the function; \<open>range_order m ks\<close> says that \<open>ks\<close> is an
  order in which the loop may visit the keys of \<open>m\<close>.
\<close>

definition range_order :: "('k \<rightharpoonup> 'v) \<Rightarrow> 'k list \<Rightarrow> bool" where
  "range_order m ks = (distinct ks \<and> set ks = dom m)"

definition ListProviders :: "'c service \<Rightarrow> string list \<Rightarrow> string list" where
  "ListProviders s ks = foldl (\<lambda>names name. names @ [name]) [] ks"

text \<open>
  The first loop of \<^verbatim>\<open>ListModels\<close> copies the registry's map, key by key, under the read
  lock.
\<close>

definition copy_providers :: "(string \<rightharpoonup> 'c Provider) \<Rightarrow> string list \<Rightarrow> (string \<rightharpoonup> 'c Provider)" where
  "copy_providers m ks =
     foldl (\<lambda>ps name. case m name of None \<Rightarrow> ps | Some p \<Rightarrow> ps(name \<mapsto> p)) Map.empty ks"

text \<open>
  The second loop of \<^verbatim>\<open>ListModels\<close>, over the copy \<open>ps\<close>: it returns at the first provider
  whose listing fails, with the \<^verbatim>\<open>nil\<close> map. The loop only visits keys of \<open>ps\<close>; the
  function skips any other name.
\<close>

fun ListModels_loop ::
  "(string \<rightharpoonup> 'c Provider) \<Rightarrow> 'c \<Rightarrow> string list \<Rightarrow> (string \<rightharpoonup> ModelInfo list)
     \<Rightarrow> (string \<rightharpoonup> ModelInfo list) \<times> error option" where
  "ListModels_loop ps ctx [] result = (result, None)"
| "ListModels_loop ps ctx (name # ks) result =
     (case ps name of
        None \<Rightarrow> ListModels_loop ps ctx ks result
      | Some p \<Rightarrow>
          (case Provider_ListModels p ctx of
             (models, Some err) \<Rightarrow> (Map.empty, Some (ListModelsFailed name err))
           | (models, None) \<Rightarrow> ListModels_loop ps ctx ks (result(name \<mapsto> models))))"

text \<open>
  \<open>ks1\<close> is the order of the copying loop, over the registry's map, and \<open>ks2\<close> the order
  of the listing loop, over the copy.
\<close>

definition ListModels ::
  "'c service \<Rightarrow> 'c \<Rightarrow> string list \<Rightarrow> string list \<Rightarrow> (string \<rightharpoonup> ModelInfo list) \<times> error option" where
  "ListModels s ctx ks1 ks2 =
     (let ps = copy_providers (providers s) ks1 in ListModels_loop ps ctx ks2 Map.empty)"

text \<open>
  The method \<^verbatim>\<open>Embed\<close> of the registry. \<^verbatim>\<open>GetProvider\<close> returns a provider or an error,
  never neither; the third case below only makes the function total.
\<close>

definition service_Embed ::
  "'c service \<Rightarrow> 'c \<Rightarrow> string \<Rightarrow> string \<Rightarrow> EmbeddingRequest \<Rightarrow> EmbeddingResponse \<times> error option" where
  "service_Embed s ctx providerName modelID request =
     (case GetProvider s providerName of
        (_, Some err) \<Rightarrow> (zero_EmbeddingResponse, Some err)
      | (None, None) \<Rightarrow> (zero_EmbeddingResponse, None)
      | (Some provider, None) \<Rightarrow> Provider_Embed provider ctx modelID request)"

section \<open>The embedder (LLMEmbedder)\<close>

text \<open>
  The field \<open>service\<close> holds the \<^verbatim>\<open>Embed\<close> method of the embedder's \<^verbatim>\<open>Service\<close>, the only
  method the embedder calls.
\<close>

record 'c LLMEmbedder =
  service :: "'c \<Rightarrow> string \<Rightarrow> string \<Rightarrow> EmbeddingRequest \<Rightarrow> EmbeddingResponse \<times> error option"
  provider :: string
  model :: string
  dimensions :: int
  maxPoolSize :: int

definition NewLLMEmbedder ::
  "('c \<Rightarrow> string \<Rightarrow> string \<Rightarrow> EmbeddingRequest \<Rightarrow> EmbeddingResponse \<times> error option)
     \<Rightarrow> string \<Rightarrow> string \<Rightarrow> int \<Rightarrow> 'c LLMEmbedder" where
  "NewLLMEmbedder svc prov mdl dims =
     \<lparr>service = svc, provider = prov, model = mdl, dimensions = dims, maxPoolSize = 10\<rparr>"

definition SetMaxPoolSize :: "int \<Rightarrow> 'c LLMEmbedder \<Rightarrow> 'c LLMEmbedder" where
  "SetMaxPoolSize size_arg e =
     (if size_arg > 0 then e\<lparr>maxPoolSize := size_arg\<rparr> else e\<lparr>maxPoolSize := 10\<rparr>)"

text \<open>
  The conversion \<^verbatim>\<open>string(c)\<close> of a byte slice: a Go string holds the same bytes, and a
  \<open>char\<close> is a byte.
\<close>

definition string_of_bytes :: "byte list \<Rightarrow> string" where
  "string_of_bytes c = map (\<lambda>b. char_of (unat b)) c"

text \<open>
  The type switch of \<^verbatim>\<open>Embed\<close>, in the order of its cases; \<open>None\<close> is the
  \<^verbatim>\<open>default\<close> case, from which \<^verbatim>\<open>Embed\<close> returns.
\<close>

fun textContent :: "content \<Rightarrow> string option" where
  "textContent (String_val c) = Some c"
| "textContent (Bytes_val c) = Some (string_of_bytes c)"
| "textContent (Stringer_val t) = Some t"
| "textContent _ = None"

text \<open>
  A call of \<^verbatim>\<open>e.service.Embed\<close>, by its arguments. Beside its Go result, \<open>Embed\<close> returns
  the calls it made, in order.
\<close>

type_synonym 'c call = "'c \<times> string \<times> string \<times> EmbeddingRequest"

definition Embed :: "'c LLMEmbedder \<Rightarrow> 'c \<Rightarrow> content \<Rightarrow> (vector \<times> error option) \<times> 'c call list" where
  "Embed e ctx content =
     (case textContent content of
        None \<Rightarrow> (([], Some UnsupportedType), [])
      | Some text \<Rightarrow>
          (let request = \<lparr>Input = text, Model = [], Metadata = Map.empty\<rparr>;
               (response, err) = service e ctx (provider e) (model e) request;
               calls = [(ctx, provider e, model e, request)]
           in case err of
                Some cause \<Rightarrow> (([], Some (EmbeddingFailed cause)), calls)
              | None \<Rightarrow>
                  if dimensions e > 0 \<and> int (length (Embedding response)) \<noteq> dimensions e
                  then (([], Some (DimensionMismatch (dimensions e)
                                     (int (length (Embedding response))))), calls)
                  else ((Embedding response, None), calls)))"

section \<open>BatchEmbed\<close>

text \<open>
  \<^verbatim>\<open>BatchEmbed\<close> starts one goroutine for each item and waits for all of them. It is
  modelled as a transition system whose threads are the caller, in its waiting loop, and the
  workers; a schedule, the list of the threads in the order in which they take their steps, is
  a parameter. A worker with index \<open>idx\<close> is at one of five places:
  \<^item> \<open>AtAcquire\<close>: before \<^verbatim>\<open>semaphore <- struct{}{}\<close>;
  \<^item> \<open>AtEmbed\<close>: before \<^verbatim>\<open>e.Embed(ctx, c)\<close> and the store to \<^verbatim>\<open>errs[idx]\<close> or
    \<^verbatim>\<open>results[idx]\<close>;
  \<^item> \<open>AtRelease\<close>: in the deferred function, before \<^verbatim>\<open><-semaphore\<close>;
  \<^item> \<open>AtSignal\<close>: in the deferred function, before \<^verbatim>\<open>done <- idx\<close>;
  \<^item> \<open>Exited\<close>.
  The goroutines exist from the start: the loop that starts them never blocks, and each has
  its own copy of \<open>idx\<close> and of the item.
\<close>

datatype pc = AtAcquire | AtEmbed | AtRelease | AtSignal | Exited

datatype thread = Main | Worker nat

text \<open>
  The shared state: the two arrays, the number of values buffered in the channel
  \<^verbatim>\<open>semaphore\<close> (capacity \<open>maxPoolSize\<close>), the values buffered in the channel \<^verbatim>\<open>done\<close>
  (capacity \<^verbatim>\<open>len(contents)\<close>), and the counter of the waiting loop.
\<close>

record 'c batch =
  pcs :: "pc list"
  results :: "vector list"
  errs :: "error option list"
  semaphore :: nat
  done_chan :: "nat list"
  received :: nat
  backend_calls :: "'c call list"

definition batch_init :: "content list \<Rightarrow> 'c batch" where
  "batch_init contents =
     \<lparr>pcs = replicate (length contents) AtAcquire,
      results = replicate (length contents) [],
      errs = replicate (length contents) None,
      semaphore = 0, done_chan = [], received = 0, backend_calls = []\<rparr>"

text \<open>
  One step of the worker \<open>idx\<close>. A send on a full channel and a receive from an empty one
  block: the step leaves the state as it is. With the capacity 0 the channel \<^verbatim>\<open>semaphore\<close>
  has no buffer and a send waits for a receiver; the only receives are those of workers that
  have sent, so that no send ever goes through, as in the model.
\<close>

definition worker_step :: "'c LLMEmbedder \<Rightarrow> 'c \<Rightarrow> content list \<Rightarrow> nat \<Rightarrow> 'c batch \<Rightarrow> 'c batch" where
  "worker_step e ctx contents idx s =
     (if idx < length contents then
        (case pcs s ! idx of
           AtAcquire \<Rightarrow>
             if int (semaphore s) < maxPoolSize e
             then s\<lparr>semaphore := Suc (semaphore s), pcs := (pcs s)[idx := AtEmbed]\<rparr>
             else s
         | AtEmbed \<Rightarrow>
             (let ((embedding, err), calls) = Embed e ctx (contents ! idx);
                  s' = s\<lparr>backend_calls := backend_calls s @ calls,
                         pcs := (pcs s)[idx := AtRelease]\<rparr>
              in if err \<noteq> None then s'\<lparr>errs := (errs s)[idx := err]\<rparr>
                 else s'\<lparr>results := (results s)[idx := embedding]\<rparr>)
         | AtRelease \<Rightarrow>
             if 0 < semaphore s
             then s\<lparr>semaphore := semaphore s - 1, pcs := (pcs s)[idx := AtSignal]\<rparr>
             else s
         | AtSignal \<Rightarrow>
             if length (done_chan s) < length contents
             then s\<lparr>done_chan := done_chan s @ [idx], pcs := (pcs s)[idx := Exited]\<rparr>
             else s
         | Exited \<Rightarrow> s)
      else s)"

text \<open>One round of the waiting loop: \<^verbatim>\<open><-done\<close>.\<close>

definition main_step :: "content list \<Rightarrow> 'c batch \<Rightarrow> 'c batch" where
  "main_step contents s =
     (if received s < length contents \<and> done_chan s \<noteq> []
      then s\<lparr>done_chan := tl (done_chan s), received := Suc (received s)\<rparr>
      else s)"

fun step :: "'c LLMEmbedder \<Rightarrow> 'c \<Rightarrow> content list \<Rightarrow> 'c batch \<Rightarrow> thread \<Rightarrow> 'c batch" where
  "step e ctx contents s Main = main_step contents s"
| "step e ctx contents s (Worker idx) = worker_step e ctx contents idx s"

definition run :: "'c LLMEmbedder \<Rightarrow> 'c \<Rightarrow> content list \<Rightarrow> 'c batch \<Rightarrow> thread list \<Rightarrow> 'c batch" where
  "run e ctx contents s sched = foldl (step e ctx contents) s sched"

text \<open>The loop over \<^verbatim>\<open>errs\<close> after the waiting loop, in ascending order of index.\<close>

fun check_errs :: "error option list \<Rightarrow> error option" where
  "check_errs [] = None"
| "check_errs (None # rest) = check_errs rest"
| "check_errs (Some err # rest) = Some (BatchFailed err)"

definition batch_return :: "'c batch \<Rightarrow> vector list \<times> error option" where
  "batch_return s =
     (case check_errs (errs s) of
        Some err \<Rightarrow> ([], Some err)
      | None \<Rightarrow> (results s, None))"

text \<open>
  What a call has done after the steps of a schedule: it has returned, it has panicked
  (\<^verbatim>\<open>make\<close> of a channel panics on a negative capacity), or the caller is still in its
  waiting loop.
\<close>

datatype 'a outcome = Returns 'a | Panics | Waiting

definition BatchEmbed ::
  "'c LLMEmbedder \<Rightarrow> 'c \<Rightarrow> content list \<Rightarrow> thread list \<Rightarrow> (vector list \<times> error option) outcome" where
  "BatchEmbed e ctx contents sched =
     (if maxPoolSize e < 0 then Panics
      else
        (let s = run e ctx contents (batch_init contents) sched
         in if received s = length contents then Returns (batch_return s) else Waiting))"

text \<open>
  A thread is enabled when its step changes the state. \<open>steps_left\<close> counts the steps that
  remain: four for each worker and one for each round of the waiting loop.
\<close>

definition enabled :: "'c LLMEmbedder \<Rightarrow> 'c \<Rightarrow> content list \<Rightarrow> 'c batch \<Rightarrow> thread \<Rightarrow> bool" where
  "enabled e ctx contents s t = (step e ctx contents s t \<noteq> s)"

fun pc_steps_left :: "pc \<Rightarrow> nat" where
  "pc_steps_left AtAcquire = 4"
| "pc_steps_left AtEmbed = 3"
| "pc_steps_left AtRelease = 2"
| "pc_steps_left AtSignal = 1"
| "pc_steps_left Exited = 0"

definition steps_left :: "content list \<Rightarrow> 'c batch \<Rightarrow> nat" where
  "steps_left contents s =
     sum_list (map pc_steps_left (pcs s)) + (length contents - received s)"

fun holds_permit :: "pc \<Rightarrow> nat" where
  "holds_permit AtEmbed = 1"
| "holds_permit AtRelease = 1"
| "holds_permit _ = 0"

fun has_exited :: "pc \<Rightarrow> nat" where
  "has_exited Exited = 1"
| "has_exited _ = 0"

fun has_stored :: "pc \<Rightarrow> bool" where
  "has_stored AtAcquire = False"
| "has_stored AtEmbed = False"
| "has_stored _ = True"

text \<open>
  The invariant of the transition system: the arrays keep their length, the channel
  \<^verbatim>\<open>semaphore\<close> holds one value for each worker between its send and its receive, every
  worker that has exited has sent one value on \<^verbatim>\<open>done\<close>, and the arrays hold, at every
  index, what the worker has stored there.
\<close>

definition batch_inv :: "'c LLMEmbedder \<Rightarrow> 'c \<Rightarrow> content list \<Rightarrow> 'c batch \<Rightarrow> bool" where
  "batch_inv e ctx contents s =
     (length (pcs s) = length contents \<and>
      length (results s) = length contents \<and>
      length (errs s) = length contents \<and>
      semaphore s = sum_list (map holds_permit (pcs s)) \<and>
      length (done_chan s) + received s = sum_list (map has_exited (pcs s)) \<and>
      (\<forall>i < length contents.
         errs s ! i =
           (if has_stored (pcs s ! i) then snd (fst (Embed e ctx (contents ! i))) else None)) \<and>
      (\<forall>i < length contents.
         results s ! i =
           (if has_stored (pcs s ! i) \<and> snd (fst (Embed e ctx (contents ! i))) = None
            then fst (fst (Embed e ctx (contents ! i))) else [])))"

text \<open>What \<^verbatim>\<open>BatchEmbed\<close> returns, as a function of the items alone.\<close>

definition batch_result :: "'c LLMEmbedder \<Rightarrow> 'c \<Rightarrow> content list \<Rightarrow> vector list \<times> error option" where
  "batch_result e ctx contents =
     (case check_errs (map (\<lambda>c. snd (fst (Embed e ctx c))) contents) of
        Some err \<Rightarrow> ([], Some err)
      | None \<Rightarrow> (map (\<lambda>c. fst (fst (Embed e ctx c))) contents, None))"

section \<open>Fixtures\<close>

text \<open>
  The mock provider and the mock service of the package's tests, with the context
  \<open>()\<close>: a provider that lists the models it was given, and a service whose \<^verbatim>\<open>Embed\<close>
  returns a fixed vector. \<open>failingProvider\<close> is a provider whose listing fails.
\<close>

definition mockProvider :: "string \<Rightarrow> ModelInfo list \<Rightarrow> unit Provider" where
  "mockProvider name models =
     \<lparr>Provider_Name = name,
      Provider_ListModels = (\<lambda>ctx. (models, None)),
      Provider_Embed = (\<lambda>ctx modelID request. (zero_EmbeddingResponse, None))\<rparr>"

definition failingProvider :: "string \<Rightarrow> error \<Rightarrow> unit Provider" where
  "failingProvider name err =
     \<lparr>Provider_Name = name,
      Provider_ListModels = (\<lambda>ctx. ([], Some err)),
      Provider_Embed = (\<lambda>ctx modelID request. (zero_EmbeddingResponse, None))\<rparr>"

definition mockService ::
  "vector \<Rightarrow> unit \<Rightarrow> string \<Rightarrow> string \<Rightarrow> EmbeddingRequest \<Rightarrow> EmbeddingResponse \<times> error option" where
  "mockService v ctx prov mdl request =
     (\<lparr>Embedding = v, Usage = zero_Usage, Response_Metadata = Map.empty\<rparr>, None)"

text \<open>The vector \<^verbatim>\<open>[0.1, 0.2, 0.3]\<close> of the tests, as bit patterns.\<close>

definition expectedEmbedding :: vector where
  "expectedEmbedding = [0x3FB999999999999A, 0x3FC999999999999A, 0x3FD3333333333333]"

text \<open>A service whose \<^verbatim>\<open>Embed\<close> fails with \<open>err\<close> on the input \<open>bad\<close>.\<close>

definition failingService ::
  "string \<Rightarrow> error \<Rightarrow> vector \<Rightarrow> unit \<Rightarrow> string \<Rightarrow> string \<Rightarrow> EmbeddingRequest
     \<Rightarrow> EmbeddingResponse \<times> error option" where
  "failingService bad err v ctx prov mdl request =
     (if Input request = bad then (zero_EmbeddingResponse, Some err)
      else (\<lparr>Embedding = v, Usage = zero_Usage, Response_Metadata = Map.empty\<rparr>, None))"

definition testModel :: "string \<Rightarrow> int \<Rightarrow> ModelInfo" where
  "testModel name ctxsize =
     \<lparr>Name = name, ContextWindowSize = ctxsize, MaxOutputTokens = 0,
      SupportsImageInput = False, SupportsAudioInput = False, SupportsVisionOutput = False,
      PricingPerInputToken = 0, PricingPerOutputToken = 0\<rparr>"

definition testEmbedder :: "unit LLMEmbedder" where
  "testEmbedder =
     SetMaxPoolSize 2
       (NewLLMEmbedder (mockService expectedEmbedding) ''test-provider'' ''test-model'' 3)"

text \<open>The registries, embedders and schedules of the examples.\<close>

definition testRegistry :: "unit service" where
  "testRegistry =
     fst (RegisterProvider
            (fst (RegisterProvider NewService
                    (Some (mockProvider ''provider1''
                             [testModel ''model1'' 1024, testModel ''model2'' 2048]))))
            (Some (mockProvider ''provider2'' [testModel ''model3'' 4096])))"

definition failingRegistry :: "unit service" where
  "failingRegistry =
     fst (RegisterProvider testRegistry
            (Some (failingProvider ''provider3'' (BackendFailure ''unreachable''))))"

definition defaultEmbedder :: "unit LLMEmbedder" where
  "defaultEmbedder = NewLLMEmbedder (mockService []) [] [] 0"

definition failingEmbedder :: "unit LLMEmbedder" where
  "failingEmbedder =
     SetMaxPoolSize 2
       (NewLLMEmbedder (failingService ''bad'' (BackendFailure ''boom'') expectedEmbedding)
          ''test-provider'' ''test-model'' 3)"

definition scheduleA :: "thread list" where
  "scheduleA =
     [Worker 0, Worker 1, Worker 2, Worker 1, Worker 1, Worker 2, Worker 1, Worker 0,
      Worker 2, Worker 0, Main, Worker 2, Worker 0, Worker 2, Main, Main]"

definition scheduleB :: "thread list" where
  "scheduleB =
     [Worker 2, Worker 2, Worker 2, Worker 2, Worker 1, Worker 1, Worker 1, Worker 1,
      Main, Worker 0, Worker 0, Worker 0, Worker 0, Main, Main]"

section \<open>Lemmas on the registry\<close>

lemma copy_providers_foldl:
  "foldl (\<lambda>ps name. case m name of None \<Rightarrow> ps | Some p \<Rightarrow> ps(name \<mapsto> p)) acc ks
     = (\<lambda>k. if k \<in> set ks \<and> m k \<noteq> None then m k else acc k)"
  by (induction ks arbitrary: acc) (auto simp: fun_eq_iff split: option.splits)

lemma copy_providers_eq: "set ks = dom m \<Longrightarrow> copy_providers m ks = m"
  by (auto simp: copy_providers_def copy_providers_foldl fun_eq_iff domIff)

lemma ListProviders_eq: "ListProviders s ks = ks"
proof -
  have "foldl (\<lambda>names name. names @ [name]) acc ks = acc @ ks" for acc :: "string list"
    by (induction ks arbitrary: acc) auto
  then show ?thesis by (simp add: ListProviders_def)
qed

lemma ListModels_loop_ok:
  "(\<And>name p. name \<in> set ks \<Longrightarrow> ps name = Some p \<Longrightarrow> snd (Provider_ListModels p ctx) = None)
   \<Longrightarrow> ListModels_loop ps ctx ks result =
        (\<lambda>name. if name \<in> set ks \<and> ps name \<noteq> None
                then map_option (\<lambda>p. fst (Provider_ListModels p ctx)) (ps name)
                else result name, None)"
proof (induction ks arbitrary: result)
  case Nil
  then show ?case by simp
next
  case (Cons k ks)
  show ?case
  proof (cases "ps k")
    case None
    have "ListModels_loop ps ctx ks result = (\<lambda>name. if name \<in> set ks \<and> ps name \<noteq> None
                then map_option (\<lambda>p. fst (Provider_ListModels p ctx)) (ps name)
                else result name, None)"
      using Cons.prems by (intro Cons.IH) auto
    then show ?thesis using None by (auto simp: fun_eq_iff)
  next
    case (Some p)
    then have ok: "snd (Provider_ListModels p ctx) = None" using Cons.prems[of k p] by simp
    then obtain models where m: "Provider_ListModels p ctx = (models, None)"
      by (cases "Provider_ListModels p ctx") auto
    have "ListModels_loop ps ctx (k # ks) result = ListModels_loop ps ctx ks (result(k \<mapsto> models))"
      using Some m by simp
    also have "\<dots> = (\<lambda>name. if name \<in> set ks \<and> ps name \<noteq> None
                then map_option (\<lambda>p. fst (Provider_ListModels p ctx)) (ps name)
                else (result(k \<mapsto> models)) name, None)"
      using Cons.prems by (intro Cons.IH) auto
    finally show ?thesis using Some m by (auto simp: fun_eq_iff)
  qed
qed

lemma ListModels_loop_fail:
  "\<exists>name \<in> set ks. \<exists>p err. ps name = Some p \<and> snd (Provider_ListModels p ctx) = Some err
   \<Longrightarrow> \<exists>name \<in> set ks. \<exists>p err. ps name = Some p \<and> snd (Provider_ListModels p ctx) = Some err
         \<and> ListModels_loop ps ctx ks result = (Map.empty, Some (ListModelsFailed name err))"
proof (induction ks arbitrary: result)
  case Nil
  then show ?case by simp
next
  case (Cons k ks)
  show ?case
  proof (cases "ps k")
    case None
    then have "\<exists>name \<in> set ks. \<exists>p err. ps name = Some p \<and> snd (Provider_ListModels p ctx) = Some err"
      using Cons.prems by auto
    from Cons.IH[OF this, of result] None show ?thesis by auto
  next
    case (Some p)
    show ?thesis
    proof (cases "snd (Provider_ListModels p ctx)")
      case (Some err)
      then obtain models where "Provider_ListModels p ctx = (models, Some err)"
        by (cases "Provider_ListModels p ctx") auto
      with \<open>ps k = Some p\<close> show ?thesis by auto
    next
      case None
      then obtain models where m: "Provider_ListModels p ctx = (models, None)"
        by (cases "Provider_ListModels p ctx") auto
      have "\<exists>name \<in> set ks. \<exists>p err. ps name = Some p \<and> snd (Provider_ListModels p ctx) = Some err"
        using Cons.prems \<open>ps k = Some p\<close> None by auto
      from Cons.IH[OF this, of "result(k \<mapsto> models)"]
      obtain name q err where "name \<in> set ks" "ps name = Some q"
        "snd (Provider_ListModels q ctx) = Some err"
        "ListModels_loop ps ctx ks (result(k \<mapsto> models)) = (Map.empty, Some (ListModelsFailed name err))"
        by blast
      moreover have "ListModels_loop ps ctx (k # ks) result = ListModels_loop ps ctx ks (result(k \<mapsto> models))"
        using \<open>ps k = Some p\<close> m by simp
      ultimately show ?thesis by (metis list.set_intros(2))
    qed
  qed
qed

section \<open>Lemmas on the transition system of BatchEmbed\<close>

lemma sum_list_map_update:
  "i < length xs \<Longrightarrow>
     sum_list (map f (xs[i := v])) + f (xs ! i) = sum_list (map f xs) + (f v :: nat)"
proof (induction xs arbitrary: i)
  case Nil
  then show ?case by simp
next
  case (Cons x xs)
  then show ?case by (cases i) auto
qed

lemma sum_list_pos:
  "i < length xs \<Longrightarrow> 0 < (f (xs ! i) :: nat) \<Longrightarrow> 0 < sum_list (map f xs)"
  by (induction xs arbitrary: i) (auto simp: nth_Cons split: nat.splits)

lemma sum_list_le_length:
  "(\<And>x. f x \<le> (1::nat)) \<Longrightarrow> sum_list (map f xs) \<le> length xs"
proof (induction xs)
  case Nil
  then show ?case by simp
next
  case (Cons x xs)
  have "f x \<le> 1" by (rule Cons.prems)
  moreover have "sum_list (map f xs) \<le> length xs" using Cons by simp
  ultimately show ?case by simp
qed

lemma sum_list_all_one:
  "(\<And>x. f x \<le> (1::nat)) \<Longrightarrow> length xs \<le> sum_list (map f xs) \<Longrightarrow> i < length xs \<Longrightarrow> f (xs ! i) = 1"
proof (induction xs arbitrary: i)
  case Nil
  then show ?case by simp
next
  case (Cons x xs)
  have le: "sum_list (map f xs) \<le> length xs"
    using Cons.prems(1) by (rule sum_list_le_length)
  have fx: "f x \<le> 1" by (rule Cons.prems(1))
  from Cons.prems(2) le fx have x1: "f x = 1" and rest: "length xs \<le> sum_list (map f xs)"
    by auto
  show ?case
  proof (cases i)
    case 0
    then show ?thesis using x1 by simp
  next
    case (Suc j)
    then show ?thesis using Cons.IH[OF Cons.prems(1) rest, of j] Cons.prems(3) by simp
  qed
qed

lemma batch_inv_init: "batch_inv e ctx contents (batch_init contents)"
  by (simp add: batch_inv_def batch_init_def)


lemma has_exited_le: "has_exited p \<le> 1"
  by (cases p) auto

lemma worker_step_inv:
  assumes "batch_inv e ctx contents s"
  shows "batch_inv e ctx contents (worker_step e ctx contents idx s)"
proof (cases "idx < length contents")
  case False
  then show ?thesis using assms by (simp add: worker_step_def)
next
  case True
  have len: "length (pcs s) = length contents" "length (results s) = length contents"
    "length (errs s) = length contents"
    using assms by (simp_all add: batch_inv_def)
  have idx: "idx < length (pcs s)" using True len by simp
  note upd_h = sum_list_map_update[OF idx, of holds_permit]
  note upd_x = sum_list_map_update[OF idx, of has_exited]
  show ?thesis
  proof (cases "pcs s ! idx")
    case AtAcquire
    then show ?thesis using assms True upd_h[of AtEmbed] upd_x[of AtEmbed]
      by (auto simp: worker_step_def batch_inv_def nth_list_update)
  next
    case AtEmbed
    then show ?thesis using assms True upd_h[of AtRelease] upd_x[of AtRelease]
      by (auto simp: worker_step_def batch_inv_def nth_list_update Let_def split: prod.splits)
  next
    case AtRelease
    then show ?thesis using assms True upd_h[of AtSignal] upd_x[of AtSignal]
      by (auto simp: worker_step_def batch_inv_def nth_list_update)
  next
    case AtSignal
    then show ?thesis using assms True upd_h[of Exited] upd_x[of Exited]
      by (auto simp: worker_step_def batch_inv_def nth_list_update)
  next
    case Exited
    then show ?thesis using assms True by (simp add: worker_step_def)
  qed
qed

lemma main_step_inv:
  assumes "batch_inv e ctx contents s"
  shows "batch_inv e ctx contents (main_step contents s)"
  using assms by (cases "done_chan s") (auto simp: main_step_def batch_inv_def)

lemma step_inv: "batch_inv e ctx contents s \<Longrightarrow> batch_inv e ctx contents (step e ctx contents s t)"
  by (cases t) (simp_all add: worker_step_inv main_step_inv)

lemma run_inv: "batch_inv e ctx contents s \<Longrightarrow> batch_inv e ctx contents (run e ctx contents s sched)"
  unfolding run_def by (induction sched arbitrary: s) (simp_all add: step_inv)


lemma check_errs_None: "check_errs es = None \<longleftrightarrow> (\<forall>x \<in> set es. x = None)"
  by (induction es rule: check_errs.induct) auto

lemma batch_return_final:
  assumes inv: "batch_inv e ctx contents s" and fin: "received s = length contents"
  shows "batch_return s = batch_result e ctx contents"
proof -
  have len: "length (pcs s) = length contents" "length (results s) = length contents"
    "length (errs s) = length contents"
    using inv by (simp_all add: batch_inv_def)
  have "length (pcs s) \<le> sum_list (map has_exited (pcs s))"
    using inv fin by (simp add: batch_inv_def)
  then have ex: "has_exited (pcs s ! i) = 1" if "i < length contents" for i
    using sum_list_all_one[of has_exited "pcs s" i] has_exited_le that len by simp
  have stored: "has_stored (pcs s ! i)" if "i < length contents" for i
    using ex[OF that] by (cases "pcs s ! i") auto
  have errs: "errs s = map (\<lambda>c. snd (fst (Embed e ctx c))) contents"
    using inv stored len by (intro nth_equalityI) (auto simp: batch_inv_def)
  show ?thesis
  proof (cases "check_errs (errs s)")
    case (Some err)
    then show ?thesis using errs by (simp add: batch_return_def batch_result_def)
  next
    case None
    then have ok: "snd (fst (Embed e ctx (contents ! i))) = None" if "i < length contents" for i
      using that errs by (auto simp: check_errs_None)
    have "results s = map (\<lambda>c. fst (fst (Embed e ctx c))) contents"
      using inv stored ok len by (intro nth_equalityI) (auto simp: batch_inv_def)
    then show ?thesis using None errs by (simp add: batch_return_def batch_result_def)
  qed
qed

lemma run_Cons: "run e ctx contents s (t # sched) = run e ctx contents (step e ctx contents s t) sched"
  by (simp add: run_def)

lemma run_append:
  "run e ctx contents s (sched @ sched') = run e ctx contents (run e ctx contents s sched) sched'"
  by (simp add: run_def)

lemma sum_list_zero: "(\<And>x. x \<in> set xs \<Longrightarrow> f x = (0::nat)) \<Longrightarrow> sum_list (map f xs) = 0"
  by (induction xs) auto

lemma sum_list_all_ones:
  "(\<And>x. x \<in> set xs \<Longrightarrow> f x = (1::nat)) \<Longrightarrow> sum_list (map f xs) = length xs"
  by (induction xs) auto

lemma step_progress:
  assumes inv: "batch_inv e ctx contents s" and pool: "0 < maxPoolSize e"
    and unfinished: "received s < length contents"
  shows "\<exists>t. steps_left contents (step e ctx contents s t) < steps_left contents s"
proof -
  have len: "length (pcs s) = length contents" using inv by (simp add: batch_inv_def)
  have sem: "semaphore s = sum_list (map holds_permit (pcs s))"
    using inv by (simp add: batch_inv_def)
  have worker: "steps_left contents (step e ctx contents s (Worker i)) < steps_left contents s"
    if i: "i < length contents" and go: "pcs s ! i = AtAcquire \<longrightarrow> int (semaphore s) < maxPoolSize e"
      "pcs s ! i = AtRelease \<longrightarrow> 0 < semaphore s"
      "pcs s ! i = AtSignal \<longrightarrow> length (done_chan s) < length contents"
      "pcs s ! i \<noteq> Exited" for i
  proof -
    have i': "i < length (pcs s)" using i len by simp
    note upd = sum_list_map_update[OF i', of pc_steps_left]
    show ?thesis
    proof (cases "pcs s ! i")
      case AtAcquire
      then show ?thesis using i go(1) upd[of AtEmbed]
        by (simp add: worker_step_def steps_left_def)
    next
      case AtEmbed
      then show ?thesis using i upd[of AtRelease]
        by (simp add: worker_step_def steps_left_def Let_def split: prod.splits)
    next
      case AtRelease
      then show ?thesis using i go(2) upd[of AtSignal]
        by (simp add: worker_step_def steps_left_def)
    next
      case AtSignal
      then show ?thesis using i go(3) upd[of Exited]
        by (simp add: worker_step_def steps_left_def)
    next
      case Exited
      then show ?thesis using go(4) by simp
    qed
  qed
  show ?thesis
  proof (cases "done_chan s = []")
    case False
    then have "steps_left contents (step e ctx contents s Main) < steps_left contents s"
      using unfinished by (simp add: main_step_def steps_left_def)
    then show ?thesis ..
  next
    case True
    then have "sum_list (map has_exited (pcs s)) < length (pcs s)"
      using inv unfinished by (simp add: batch_inv_def)
    then have "\<not> (\<forall>p \<in> set (pcs s). has_exited p = 1)"
      using sum_list_all_ones[of "pcs s" has_exited] by auto
    then obtain p where "p \<in> set (pcs s)" "p \<noteq> Exited"
      by (metis has_exited.simps(1))
    then obtain i where i: "i < length contents" and ne: "pcs s ! i \<noteq> Exited"
      using len by (auto simp: in_set_conv_nth)
    show ?thesis
    proof (cases "\<exists>j < length contents. pcs s ! j \<in> {AtEmbed, AtRelease, AtSignal}")
      case True
      then obtain j where j: "j < length contents" and pj: "pcs s ! j \<in> {AtEmbed, AtRelease, AtSignal}"
        by blast
      have "pcs s ! j = AtRelease \<Longrightarrow> 0 < semaphore s"
        using sem sum_list_pos[of j "pcs s" holds_permit] j len by simp
      moreover have "length (done_chan s) < length contents"
        using \<open>done_chan s = []\<close> j by auto
      ultimately have "steps_left contents (step e ctx contents s (Worker j)) < steps_left contents s"
        using pj by (intro worker[OF j]) auto
      then show ?thesis ..
    next
      case False
      have all: "p = AtAcquire \<or> p = Exited" if p: "p \<in> set (pcs s)" for p
      proof -
        obtain j where "j < length contents" "pcs s ! j = p"
          using p len by (auto simp: in_set_conv_nth)
        with False show ?thesis by (cases p) auto
      qed
      have "holds_permit p = 0" if p: "p \<in> set (pcs s)" for p
        using all[OF p] by auto
      then have "sum_list (map holds_permit (pcs s)) = 0"
        by (rule sum_list_zero)
      with sem have "semaphore s = 0" by (simp only:)
      then have "int (semaphore s) < maxPoolSize e" using pool by simp
      moreover have "pcs s ! i = AtAcquire" using all[of "pcs s ! i"] i ne len by simp
      ultimately have "steps_left contents (step e ctx contents s (Worker i)) < steps_left contents s"
        by (intro worker[OF i]) auto
      then show ?thesis ..
    qed
  qed
qed

lemma run_completes:
  assumes "batch_inv e ctx contents s" and "0 < maxPoolSize e"
  shows "\<exists>sched. received (run e ctx contents s sched) = length contents"
  using assms
proof (induction "steps_left contents s" arbitrary: s rule: less_induct)
  case less
  have le: "received s \<le> length contents"
  proof -
    have "sum_list (map has_exited (pcs s)) \<le> length (pcs s)"
      using has_exited_le by (rule sum_list_le_length)
    then show ?thesis using less.prems(1) by (simp add: batch_inv_def)
  qed
  show ?case
  proof (cases "received s = length contents")
    case True
    then have "received (run e ctx contents s []) = length contents" by (simp add: run_def)
    then show ?thesis ..
  next
    case False
    then have "received s < length contents" using le by simp
    from step_progress[OF less.prems(1) less.prems(2) this]
    obtain t where t: "steps_left contents (step e ctx contents s t) < steps_left contents s" ..
    have "batch_inv e ctx contents (step e ctx contents s t)"
      using less.prems(1) by (rule step_inv)
    from less.hyps[OF t this less.prems(2)]
    obtain sched where "received (run e ctx contents (step e ctx contents s t) sched) = length contents" ..
    then have "received (run e ctx contents s (t # sched)) = length contents"
      by (simp add: run_Cons)
    then show ?thesis ..
  qed
qed

lemma enabled_step_decreases:
  assumes inv: "batch_inv e ctx contents s" and en: "enabled e ctx contents s t"
  shows "Suc (steps_left contents (step e ctx contents s t)) = steps_left contents s"
proof (cases t)
  case Main
  then show ?thesis using en
    by (auto simp: enabled_def main_step_def steps_left_def split: if_splits)
next
  case (Worker i)
  have len: "length (pcs s) = length contents" using inv by (simp add: batch_inv_def)
  have i: "i < length contents" using en Worker
    by (auto simp: enabled_def worker_step_def split: if_splits)
  then have i': "i < length (pcs s)" using len by simp
  note upd = sum_list_map_update[OF i', of pc_steps_left]
  show ?thesis
  proof (cases "pcs s ! i")
    case AtAcquire
    then show ?thesis using en Worker i upd[of AtEmbed]
      by (auto simp: enabled_def worker_step_def steps_left_def split: if_splits)
  next
    case AtEmbed
    then show ?thesis using Worker i upd[of AtRelease]
      by (simp add: worker_step_def steps_left_def Let_def split: prod.splits)
  next
    case AtRelease
    then show ?thesis using en Worker i upd[of AtSignal]
      by (auto simp: enabled_def worker_step_def steps_left_def split: if_splits)
  next
    case AtSignal
    then show ?thesis using en Worker i upd[of Exited]
      by (auto simp: enabled_def worker_step_def steps_left_def split: if_splits)
  next
    case Exited
    then show ?thesis using en Worker i by (simp add: enabled_def worker_step_def)
  qed
qed

lemma steps_left_init: "steps_left contents (batch_init contents) = 5 * length contents"
  by (simp add: steps_left_def batch_init_def sum_list_replicate)

lemma BatchEmbed_Returns:
  assumes "BatchEmbed e ctx contents sched = Returns r"
  shows "r = batch_result e ctx contents"
proof -
  let ?s = "run e ctx contents (batch_init contents) sched"
  have fin: "received ?s = length contents" and r: "r = batch_return ?s"
    using assms by (auto simp: BatchEmbed_def Let_def split: if_splits)
  have "batch_inv e ctx contents ?s" by (intro run_inv batch_inv_init)
  then show ?thesis using fin r by (simp add: batch_return_final)
qed

lemma BatchEmbed_completes:
  assumes "0 < maxPoolSize e"
  shows "\<exists>sched'. BatchEmbed e ctx contents (sched @ sched') = Returns (batch_result e ctx contents)"
proof -
  let ?s = "run e ctx contents (batch_init contents) sched"
  have inv: "batch_inv e ctx contents ?s" by (intro run_inv batch_inv_init)
  from run_completes[OF inv assms]
  obtain sched' where fin: "received (run e ctx contents ?s sched') = length contents" ..
  have "batch_inv e ctx contents (run e ctx contents ?s sched')" using inv by (rule run_inv)
  then have "batch_return (run e ctx contents ?s sched') = batch_result e ctx contents"
    using fin by (rule batch_return_final)
  then have "BatchEmbed e ctx contents (sched @ sched') = Returns (batch_result e ctx contents)"
    using fin assms by (simp add: BatchEmbed_def run_append Let_def)
  then show ?thesis ..
qed

lemma batch_result_ok:
  assumes "list_all (\<lambda>c. snd (fst (Embed e ctx c)) = None) contents"
  shows "batch_result e ctx contents = (map (\<lambda>c. fst (fst (Embed e ctx c))) contents, None)"
proof -
  have "check_errs (map (\<lambda>c. snd (fst (Embed e ctx c))) contents) = None"
    using assms by (auto simp: check_errs_None list_all_iff)
  then show ?thesis by (simp add: batch_result_def)
qed

lemma check_errs_first:
  "i < length es \<Longrightarrow> es ! i = Some err \<Longrightarrow> (\<And>j. j < i \<Longrightarrow> es ! j = None)
     \<Longrightarrow> check_errs es = Some (BatchFailed err)"
proof (induction es arbitrary: i rule: check_errs.induct)
  case 1
  then show ?case by simp
next
  case (2 rest)
  show ?case
  proof (cases i)
    case 0
    then show ?thesis using 2 by simp
  next
    case (Suc k)
    have "check_errs rest = Some (BatchFailed err)"
    proof (rule "2.IH"[of k])
      show "k < length rest" using "2.prems"(1) Suc by simp
      show "rest ! k = Some err" using "2.prems"(2) Suc by simp
      show "rest ! j = None" if "j < k" for j
        using "2.prems"(3)[of "Suc j"] that Suc by simp
    qed
    then show ?thesis by simp
  qed
next
  case (3 e rest)
  show ?case
  proof (cases i)
    case 0
    then show ?thesis using 3 by simp
  next
    case (Suc k)
    then show ?thesis using "3.prems"(3)[of 0] by simp
  qed
qed

lemma batch_result_first_failure:
  assumes i: "i < length contents" and err: "snd (fst (Embed e ctx (contents ! i))) = Some err"
    and before: "list_all (\<lambda>c. snd (fst (Embed e ctx c)) = None) (take i contents)"
  shows "batch_result e ctx contents = ([], Some (BatchFailed err))"
proof -
  let ?es = "map (\<lambda>c. snd (fst (Embed e ctx c))) contents"
  have "?es ! j = None" if j: "j < i" for j
  proof -
    have "contents ! j \<in> set (take i contents)"
      using j i by (metis in_set_conv_nth length_take min.absorb2 nat_less_le nth_take)
    then show ?thesis using before j i by (simp add: list_all_iff)
  qed
  moreover have "i < length ?es" "?es ! i = Some err" using i err by simp_all
  ultimately have "check_errs ?es = Some (BatchFailed err)"
    by (intro check_errs_first[of i]) auto
  then show ?thesis by (simp add: batch_result_def)
qed

lemma batch_result_failure:
  assumes "list_ex (\<lambda>c. snd (fst (Embed e ctx c)) \<noteq> None) contents"
  shows "\<exists>err. batch_result e ctx contents = ([], Some err)"
proof -
  have "check_errs (map (\<lambda>c. snd (fst (Embed e ctx c))) contents) \<noteq> None"
    using assms by (auto simp: check_errs_None list_ex_iff)
  then show ?thesis by (auto simp: batch_result_def)
qed

lemma no_deadlock:
  assumes "batch_inv e ctx contents s" and "0 < maxPoolSize e"
    and "received s < length contents"
  shows "\<exists>t. enabled e ctx contents s t"
proof -
  from step_progress[OF assms]
  obtain t where "steps_left contents (step e ctx contents s t) < steps_left contents s" ..
  then have "step e ctx contents s t \<noteq> s" by auto
  then show ?thesis by (auto simp: enabled_def)
qed

lemma received_le:
  assumes "batch_inv e ctx contents s"
  shows "received s \<le> length contents"
proof -
  have "sum_list (map has_exited (pcs s)) \<le> length (pcs s)"
    using has_exited_le by (rule sum_list_le_length)
  then show ?thesis using assms by (simp add: batch_inv_def)
qed

lemma BatchEmbed_maximal_returns:
  assumes pool: "0 < maxPoolSize e"
    and stuck: "\<And>t. \<not> enabled e ctx contents (run e ctx contents (batch_init contents) sched) t"
  shows "BatchEmbed e ctx contents sched = Returns (batch_result e ctx contents)"
proof -
  let ?s = "run e ctx contents (batch_init contents) sched"
  have inv: "batch_inv e ctx contents ?s" by (intro run_inv batch_inv_init)
  have "\<not> received ?s < length contents"
    using no_deadlock[OF inv pool] stuck by blast
  then have fin: "received ?s = length contents" using received_le[OF inv] by simp
  then show ?thesis using pool batch_return_final[OF inv fin] by (simp add: BatchEmbed_def)
qed

lemma step_init_no_permits:
  assumes "maxPoolSize e \<le> 0"
  shows "step e ctx contents (batch_init contents) t = batch_init contents"
proof (cases t)
  case Main
  then show ?thesis by (simp add: main_step_def batch_init_def)
next
  case (Worker i)
  then show ?thesis using assms by (simp add: worker_step_def batch_init_def)
qed

lemma BatchEmbed_no_permits:
  assumes "maxPoolSize e = 0" and "contents \<noteq> []"
  shows "BatchEmbed e ctx contents sched = Waiting"
proof -
  have "run e ctx contents (batch_init contents) sched = batch_init contents"
    unfolding run_def using assms(1) by (induction sched) (simp_all add: step_init_no_permits)
  then show ?thesis using assms by (simp add: BatchEmbed_def batch_init_def)
qed

section \<open>The claims on the registry\<close>

lemma NewService_no_empty_name: "providers NewService [] = None"
  by (simp add: NewService_def)

lemma RegisterProvider_no_empty_name:
  "providers s [] = None \<Longrightarrow> providers (fst (RegisterProvider s p)) [] = None"
  by (auto simp: RegisterProvider_def Let_def split: option.splits)

text \<open>
  Claim C7. \<^verbatim>\<open>RegisterProvider\<close> with the \<^verbatim>\<open>nil\<close> provider, or with a provider whose name is
  the empty string, returns the error for an invalid argument, and the registry after the call
  is the registry before it.
\<close>

theorem RegisterProvider_invalid:
  "RegisterProvider s None = (s, Some (InvalidArgument ''provider cannot be nil'')) \<and>
   (Provider_Name p = [] \<longrightarrow>
      RegisterProvider s (Some p) = (s, Some (InvalidArgument ''provider name cannot be empty'')))"
  by (simp add: RegisterProvider_def)

theorem RegisterProvider_invalid_witness:
  "Provider_Name (mockProvider [] []) = [] \<and>
   RegisterProvider NewService (Some (mockProvider [] []))
     = (NewService, Some (InvalidArgument ''provider name cannot be empty'')) \<and>
   RegisterProvider (NewService :: unit service) None
     = (NewService, Some (InvalidArgument ''provider cannot be nil''))"
  using RegisterProvider_invalid[of "NewService :: unit service" "mockProvider [] []"]
  by (simp add: mockProvider_def)

text \<open>
  Claim C8. When a provider is registered under a name, \<^verbatim>\<open>RegisterProvider\<close> with a provider
  of the same name returns the error for a name already registered and leaves the registry as
  it is, so that \<^verbatim>\<open>GetProvider\<close> still returns the provider registered first. No call of
  \<^verbatim>\<open>RegisterProvider\<close> replaces or removes a provider that is registered; the other methods
  do not change the registry.
\<close>

theorem RegisterProvider_duplicate:
  assumes "providers s name = Some p1" and "name \<noteq> []" and "Provider_Name p2 = name"
  shows "RegisterProvider s (Some p2) = (s, Some (AlreadyRegistered name)) \<and>
         GetProvider (fst (RegisterProvider s (Some p2))) name = (Some p1, None) \<and>
         (\<forall>p n q. providers s n = Some q \<longrightarrow> providers (fst (RegisterProvider s p)) n = Some q)"
  using assms by (auto simp: RegisterProvider_def GetProvider_def Let_def split: option.splits)

theorem RegisterProvider_duplicate_witness:
  "providers (fst (RegisterProvider NewService (Some (mockProvider ''duplicate'' [])))) ''duplicate''
     = Some (mockProvider ''duplicate'' []) \<and>
   RegisterProvider (fst (RegisterProvider NewService (Some (mockProvider ''duplicate'' []))))
       (Some (mockProvider ''duplicate'' [testModel ''model1'' 1024]))
     = (fst (RegisterProvider NewService (Some (mockProvider ''duplicate'' []))),
        Some (AlreadyRegistered ''duplicate'')) \<and>
   GetProvider
       (fst (RegisterProvider (fst (RegisterProvider NewService (Some (mockProvider ''duplicate'' []))))
               (Some (mockProvider ''duplicate'' [testModel ''model1'' 1024]))))
       ''duplicate''
     = (Some (mockProvider ''duplicate'' []), None)"
proof -
  let ?s = "fst (RegisterProvider NewService (Some (mockProvider ''duplicate'' [])))"
  have h1: "providers ?s ''duplicate'' = Some (mockProvider ''duplicate'' [])"
    by (simp add: RegisterProvider_def NewService_def mockProvider_def Let_def)
  have h2: "''duplicate'' \<noteq> []" by simp
  have h3: "Provider_Name (mockProvider ''duplicate'' [testModel ''model1'' 1024]) = ''duplicate''"
    by (simp add: mockProvider_def)
  from RegisterProvider_duplicate[OF h1 h2 h3] h1 show ?thesis by blast
qed

text \<open>
  Claim C9. When the listing of every registered provider succeeds, \<^verbatim>\<open>ListModels\<close> returns
  no error and a map whose keys are the names that \<^verbatim>\<open>ListProviders\<close> returns and whose
  value at a name is what the provider registered under it lists. When the listing of some
  provider fails, \<^verbatim>\<open>ListModels\<close> returns the \<^verbatim>\<open>nil\<close> map and the error of a provider whose
  listing fails, wrapped with the name of that provider.
\<close>

theorem ListModels_all_or_nothing:
  assumes "range_order (providers s) ks1"
    and "range_order (copy_providers (providers s) ks1) ks2"
    and "range_order (providers s) ks"
  shows "((\<forall>name p. providers s name = Some p \<longrightarrow> snd (Provider_ListModels p ctx) = None) \<longrightarrow>
            snd (ListModels s ctx ks1 ks2) = None \<and>
            dom (fst (ListModels s ctx ks1 ks2)) = set (ListProviders s ks) \<and>
            (\<forall>name p. providers s name = Some p \<longrightarrow>
               fst (ListModels s ctx ks1 ks2) name = Some (fst (Provider_ListModels p ctx)))) \<and>
         ((\<exists>name p. providers s name = Some p \<and> snd (Provider_ListModels p ctx) \<noteq> None) \<longrightarrow>
            fst (ListModels s ctx ks1 ks2) = Map.empty \<and>
            (\<exists>name p err. providers s name = Some p \<and>
               snd (Provider_ListModels p ctx) = Some err \<and>
               snd (ListModels s ctx ks1 ks2) = Some (ListModelsFailed name err)))"
proof -
  have copy: "copy_providers (providers s) ks1 = providers s"
    using assms(1) by (simp add: range_order_def copy_providers_eq)
  have LM: "ListModels s ctx ks1 ks2 = ListModels_loop (providers s) ctx ks2 Map.empty"
    by (simp add: ListModels_def copy)
  have ks2: "set ks2 = dom (providers s)" using assms(2) by (simp add: range_order_def copy)
  have ks: "set ks = dom (providers s)" using assms(3) by (simp add: range_order_def)
  show ?thesis
  proof (intro conjI impI)
    assume ok: "\<forall>name p. providers s name = Some p \<longrightarrow> snd (Provider_ListModels p ctx) = None"
    then have eq: "ListModels_loop (providers s) ctx ks2 Map.empty =
        (\<lambda>name. if name \<in> set ks2 \<and> providers s name \<noteq> None
                then map_option (\<lambda>p. fst (Provider_ListModels p ctx)) (providers s name)
                else None, None)"
      by (intro ListModels_loop_ok) auto
    show "snd (ListModels s ctx ks1 ks2) = None" by (simp add: LM eq)
    show "dom (fst (ListModels s ctx ks1 ks2)) = set (ListProviders s ks)"
      using ks2 ks by (auto simp: LM eq ListProviders_eq dom_def)
    show "\<forall>name p. providers s name = Some p \<longrightarrow>
               fst (ListModels s ctx ks1 ks2) name = Some (fst (Provider_ListModels p ctx))"
      using ks2 by (auto simp: LM eq)
  next
    assume "\<exists>name p. providers s name = Some p \<and> snd (Provider_ListModels p ctx) \<noteq> None"
    then have "\<exists>name \<in> set ks2. \<exists>p err. providers s name = Some p
        \<and> snd (Provider_ListModels p ctx) = Some err"
      using ks2 by auto
    from ListModels_loop_fail[OF this, of Map.empty]
    obtain name p err where *: "providers s name = Some p"
      "snd (Provider_ListModels p ctx) = Some err"
      "ListModels_loop (providers s) ctx ks2 Map.empty = (Map.empty, Some (ListModelsFailed name err))"
      by blast
    show "fst (ListModels s ctx ks1 ks2) = Map.empty" by (simp add: LM *)
    show "\<exists>name p err. providers s name = Some p \<and>
               snd (Provider_ListModels p ctx) = Some err \<and>
               snd (ListModels s ctx ks1 ks2) = Some (ListModelsFailed name err)"
      using * by (auto simp: LM)
  qed
qed


lemma providers_testRegistry:
  "providers testRegistry =
     [''provider1'' \<mapsto> mockProvider ''provider1'' [testModel ''model1'' 1024, testModel ''model2'' 2048],
      ''provider2'' \<mapsto> mockProvider ''provider2'' [testModel ''model3'' 4096]]"
  by (simp add: testRegistry_def RegisterProvider_def NewService_def mockProvider_def Let_def)

lemma providers_failingRegistry:
  "providers failingRegistry =
     [''provider1'' \<mapsto> mockProvider ''provider1'' [testModel ''model1'' 1024, testModel ''model2'' 2048],
      ''provider2'' \<mapsto> mockProvider ''provider2'' [testModel ''model3'' 4096],
      ''provider3'' \<mapsto> failingProvider ''provider3'' (BackendFailure ''unreachable'')]"
  by (simp add: failingRegistry_def providers_testRegistry RegisterProvider_def failingProvider_def
      Let_def)

theorem ListModels_all_or_nothing_witness:
  "range_order (providers testRegistry) [''provider1'', ''provider2''] \<and>
   range_order (copy_providers (providers testRegistry) [''provider1'', ''provider2''])
     [''provider2'', ''provider1''] \<and>
   ListProviders testRegistry [''provider1'', ''provider2''] = [''provider1'', ''provider2''] \<and>
   snd (ListModels testRegistry () [''provider1'', ''provider2''] [''provider2'', ''provider1'']) = None \<and>
   fst (ListModels testRegistry () [''provider1'', ''provider2''] [''provider2'', ''provider1''])
       ''provider1'' = Some [testModel ''model1'' 1024, testModel ''model2'' 2048] \<and>
   fst (ListModels testRegistry () [''provider1'', ''provider2''] [''provider2'', ''provider1''])
       ''provider2'' = Some [testModel ''model3'' 4096] \<and>
   range_order (providers failingRegistry) [''provider1'', ''provider3'', ''provider2''] \<and>
   ListModels failingRegistry () [''provider1'', ''provider3'', ''provider2'']
       [''provider1'', ''provider3'', ''provider2'']
     = (Map.empty, Some (ListModelsFailed ''provider3'' (BackendFailure ''unreachable'')))"
proof -
  have r1: "range_order (providers testRegistry) [''provider1'', ''provider2'']"
    by (auto simp: range_order_def providers_testRegistry)
  then have c1: "copy_providers (providers testRegistry) [''provider1'', ''provider2'']
      = providers testRegistry"
    by (simp add: range_order_def copy_providers_eq)
  have r2: "range_order (copy_providers (providers testRegistry) [''provider1'', ''provider2''])
      [''provider2'', ''provider1'']"
    unfolding c1 by (auto simp: range_order_def providers_testRegistry)
  have r3: "range_order (providers failingRegistry) [''provider1'', ''provider3'', ''provider2'']"
    by (auto simp: range_order_def providers_failingRegistry)
  then have c3: "copy_providers (providers failingRegistry) [''provider1'', ''provider3'', ''provider2'']
      = providers failingRegistry"
    by (simp add: range_order_def copy_providers_eq)
  have r3': "range_order
      (copy_providers (providers failingRegistry) [''provider1'', ''provider3'', ''provider2''])
      [''provider1'', ''provider3'', ''provider2'']"
    unfolding c3 by (rule r3)
  have ok: "\<forall>name p. providers testRegistry name = Some p
      \<longrightarrow> snd (Provider_ListModels p ()) = None"
    by (auto simp: providers_testRegistry mockProvider_def split: if_splits)
  have bad: "\<exists>name p. providers failingRegistry name = Some p
      \<and> snd (Provider_ListModels p ()) \<noteq> None"
    by (rule exI[of _ "''provider3''"]) (simp add: providers_failingRegistry failingProvider_def)
  have p1: "providers testRegistry ''provider1''
      = Some (mockProvider ''provider1'' [testModel ''model1'' 1024, testModel ''model2'' 2048])"
    and p2: "providers testRegistry ''provider2''
      = Some (mockProvider ''provider2'' [testModel ''model3'' 4096])"
    by (simp_all add: providers_testRegistry)
  note good = ListModels_all_or_nothing[OF r1 r2 r1, of "()"]
  from good ok have g1:
    "snd (ListModels testRegistry () [''provider1'', ''provider2''] [''provider2'', ''provider1'']) = None"
    and g2: "\<forall>name p. providers testRegistry name = Some p \<longrightarrow>
       fst (ListModels testRegistry () [''provider1'', ''provider2''] [''provider2'', ''provider1'']) name
         = Some (fst (Provider_ListModels p ()))"
    by blast+
  from g2 p1 have v1:
    "fst (ListModels testRegistry () [''provider1'', ''provider2''] [''provider2'', ''provider1''])
       ''provider1'' = Some [testModel ''model1'' 1024, testModel ''model2'' 2048]"
    by (simp add: mockProvider_def)
  from g2 p2 have v2:
    "fst (ListModels testRegistry () [''provider1'', ''provider2''] [''provider2'', ''provider1''])
       ''provider2'' = Some [testModel ''model3'' 4096]"
    by (simp add: mockProvider_def)
  have f: "ListModels failingRegistry () [''provider1'', ''provider3'', ''provider2'']
       [''provider1'', ''provider3'', ''provider2'']
     = (Map.empty, Some (ListModelsFailed ''provider3'' (BackendFailure ''unreachable'')))"
    by (simp add: ListModels_def copy_providers_def providers_failingRegistry mockProvider_def
        failingProvider_def)
  have lp: "ListProviders testRegistry [''provider1'', ''provider2''] = [''provider1'', ''provider2'']"
    by (simp add: ListProviders_def)
  from ListModels_all_or_nothing[OF r3 r3' r3, of "()"] bad
  have "fst (ListModels failingRegistry () [''provider1'', ''provider3'', ''provider2'']
       [''provider1'', ''provider3'', ''provider2'']) = Map.empty"
    by blast
  with r1 r2 r3 lp g1 v1 v2 f show ?thesis by blast
qed

section \<open>The claims on the embedder\<close>

lemma maxPoolSize_NewLLMEmbedder: "maxPoolSize (NewLLMEmbedder svc prov mdl dims) = 10"
  by (simp add: NewLLMEmbedder_def)

lemma SetMaxPoolSize_positive: "0 < maxPoolSize (SetMaxPoolSize n e)"
  by (simp add: SetMaxPoolSize_def)

text \<open>
  Claim C3, as stated: \<^verbatim>\<open>SetMaxPoolSize\<close> with an argument that is not positive leaves the
  ceiling as it is, so that it is 5 after \<^verbatim>\<open>SetMaxPoolSize(5)\<close> and \<^verbatim>\<open>SetMaxPoolSize(0)\<close>.
  The code sets the ceiling to 10 there.
\<close>

theorem SetMaxPoolSize_nonpositive_counterexample:
  "maxPoolSize (SetMaxPoolSize 5 defaultEmbedder) = 5 \<and>
   maxPoolSize (SetMaxPoolSize 0 (SetMaxPoolSize 5 defaultEmbedder)) = 10"
  by (simp add: SetMaxPoolSize_def)

text \<open>
  Claim C3, amended: \<^verbatim>\<open>SetMaxPoolSize\<close> with an argument that is not positive sets the
  ceiling to the default 10 and changes no other field; the ceiling is left as it is exactly
  when it is 10 already. After \<^verbatim>\<open>SetMaxPoolSize(5)\<close> and \<^verbatim>\<open>SetMaxPoolSize(0)\<close> it is 10.
\<close>

theorem SetMaxPoolSize_nonpositive_resets:
  assumes "n \<le> 0"
  shows "SetMaxPoolSize n e = e\<lparr>maxPoolSize := 10\<rparr> \<and>
         (maxPoolSize (SetMaxPoolSize n e) = maxPoolSize e \<longleftrightarrow> maxPoolSize e = 10) \<and>
         maxPoolSize (SetMaxPoolSize n (SetMaxPoolSize 5 e)) = 10"
  using assms by (auto simp: SetMaxPoolSize_def)

theorem SetMaxPoolSize_nonpositive_resets_witness:
  "(0::int) \<le> 0 \<and>
   SetMaxPoolSize 0 (SetMaxPoolSize 5 defaultEmbedder) = defaultEmbedder \<and>
   maxPoolSize (SetMaxPoolSize 0 (SetMaxPoolSize 5 defaultEmbedder)) = 10"
proof -
  have h: "(0::int) \<le> 0" by simp
  from SetMaxPoolSize_nonpositive_resets[OF h, of "SetMaxPoolSize 5 defaultEmbedder"]
  show ?thesis by (simp add: SetMaxPoolSize_def defaultEmbedder_def NewLLMEmbedder_def)
qed

text \<open>
  Claim C4. A new embedder has the ceiling 10. After \<^verbatim>\<open>SetMaxPoolSize(n)\<close> the ceiling is
  \<open>n\<close> when \<open>n\<close> is positive and the default 10 when it is not, whatever it was before.
\<close>

theorem SetMaxPoolSize_ceiling:
  "maxPoolSize (NewLLMEmbedder svc prov mdl dims) = 10 \<and>
   (0 < n \<longrightarrow> maxPoolSize (SetMaxPoolSize n e) = n) \<and>
   (n \<le> 0 \<longrightarrow> maxPoolSize (SetMaxPoolSize n e) = 10)"
  by (simp add: SetMaxPoolSize_def NewLLMEmbedder_def)

theorem SetMaxPoolSize_ceiling_witness:
  "(0::int) < 5 \<and> maxPoolSize (SetMaxPoolSize 5 defaultEmbedder) = 5 \<and>
   (-1::int) \<le> 0 \<and> maxPoolSize (SetMaxPoolSize (-1) (SetMaxPoolSize 5 defaultEmbedder)) = 10"
  using SetMaxPoolSize_ceiling[of "mockService []" "[]" "[]" 0 5 defaultEmbedder]
    SetMaxPoolSize_ceiling[of "mockService []" "[]" "[]" 0 "-1" "SetMaxPoolSize 5 defaultEmbedder"]
  by simp

text \<open>
  Claim C5. For content that the type switch accepts and a backend call that returns a
  response and no error: when the expected dimension is positive and differs from the length of
  the returned vector, \<^verbatim>\<open>Embed\<close> returns the error for a dimension mismatch; when it equals
  that length, \<^verbatim>\<open>Embed\<close> returns the vector as it is and no error; when it is not positive,
  \<^verbatim>\<open>Embed\<close> returns the vector as it is and no error, whatever its length.
\<close>

theorem Embed_dimension_check:
  assumes "textContent content = Some text"
    and "service e ctx (provider e) (model e) \<lparr>Input = text, Model = [], Metadata = Map.empty\<rparr>
           = (response, None)"
  shows "(0 < dimensions e \<and> int (length (Embedding response)) \<noteq> dimensions e \<longrightarrow>
            fst (Embed e ctx content)
              = ([], Some (DimensionMismatch (dimensions e) (int (length (Embedding response)))))) \<and>
         (int (length (Embedding response)) = dimensions e \<longrightarrow>
            fst (Embed e ctx content) = (Embedding response, None)) \<and>
         (dimensions e \<le> 0 \<longrightarrow> fst (Embed e ctx content) = (Embedding response, None))"
  using assms by (simp add: Embed_def)

theorem Embed_dimension_check_witness:
  "textContent (String_val ''test text'') = Some ''test text'' \<and>
   fst (Embed testEmbedder () (String_val ''test text'')) = (expectedEmbedding, None) \<and>
   fst (Embed (testEmbedder\<lparr>service := mockService [0x3FB999999999999A, 0x3FC999999999999A]\<rparr>) ()
          (String_val ''test text''))
     = ([], Some (DimensionMismatch 3 2)) \<and>
   fst (Embed (testEmbedder\<lparr>dimensions := 0\<rparr>) () (String_val ''test text''))
     = (expectedEmbedding, None)"
proof -
  let ?req = "\<lparr>Input = ''test text'', Model = [], Metadata = Map.empty\<rparr>"
  let ?short = "testEmbedder\<lparr>service := mockService [0x3FB999999999999A, 0x3FC999999999999A]\<rparr>"
  let ?unchecked = "testEmbedder\<lparr>dimensions := 0\<rparr>"
  have t: "textContent (String_val ''test text'') = Some ''test text''" by simp
  have b1: "service testEmbedder () (provider testEmbedder) (model testEmbedder) ?req
      = (\<lparr>Embedding = expectedEmbedding, Usage = zero_Usage, Response_Metadata = Map.empty\<rparr>, None)"
    by (simp add: testEmbedder_def SetMaxPoolSize_def NewLLMEmbedder_def mockService_def)
  have b2: "service ?short () (provider ?short) (model ?short) ?req
      = (\<lparr>Embedding = [0x3FB999999999999A, 0x3FC999999999999A], Usage = zero_Usage,
           Response_Metadata = Map.empty\<rparr>, None)"
    by (simp add: mockService_def)
  have b3: "service ?unchecked () (provider ?unchecked) (model ?unchecked) ?req
      = (\<lparr>Embedding = expectedEmbedding, Usage = zero_Usage, Response_Metadata = Map.empty\<rparr>, None)"
    by (simp add: testEmbedder_def SetMaxPoolSize_def NewLLMEmbedder_def mockService_def)
  have d: "dimensions testEmbedder = 3" "dimensions ?short = 3" "dimensions ?unchecked = 0"
    by (simp_all add: testEmbedder_def SetMaxPoolSize_def NewLLMEmbedder_def)
  from Embed_dimension_check[OF t b1] Embed_dimension_check[OF t b2]
    Embed_dimension_check[OF t b3] t d
  show ?thesis by (simp add: expectedEmbedding_def)
qed




section \<open>The claims on BatchEmbed\<close>

text \<open>
  Claim C1. With a positive ceiling and items on each of which \<^verbatim>\<open>Embed\<close> succeeds,
  \<^verbatim>\<open>BatchEmbed\<close> returns: every schedule can be continued to one after which it has
  returned. Under every schedule after which it has returned, it returns no error and a
  sequence as long as the items, whose element at each index is the vector that \<^verbatim>\<open>Embed\<close>
  returns for the item at that index.
\<close>

theorem BatchEmbed_all_succeed:
  assumes "0 < maxPoolSize e"
    and "list_all (\<lambda>c. snd (fst (Embed e ctx c)) = None) contents"
  shows "(\<forall>sched. \<exists>sched'. BatchEmbed e ctx contents (sched @ sched')
            = Returns (map (\<lambda>c. fst (fst (Embed e ctx c))) contents, None)) \<and>
         (\<forall>sched vs err. BatchEmbed e ctx contents sched = Returns (vs, err) \<longrightarrow>
            err = None \<and> length vs = length contents \<and>
            (\<forall>i < length contents. vs ! i = fst (fst (Embed e ctx (contents ! i)))))"
proof -
  have res: "batch_result e ctx contents = (map (\<lambda>c. fst (fst (Embed e ctx c))) contents, None)"
    using assms(2) by (rule batch_result_ok)
  have returns: "\<exists>sched'. BatchEmbed e ctx contents (sched @ sched')
            = Returns (map (\<lambda>c. fst (fst (Embed e ctx c))) contents, None)" for sched
    using BatchEmbed_completes[OF assms(1), of ctx contents sched] res by simp
  have result: "err = None \<and> length vs = length contents \<and>
            (\<forall>i < length contents. vs ! i = fst (fst (Embed e ctx (contents ! i))))"
    if ret: "BatchEmbed e ctx contents sched = Returns (vs, err)" for sched vs err
  proof -
    from BatchEmbed_Returns[OF ret] res
    have "(vs, err) = (map (\<lambda>c. fst (fst (Embed e ctx c))) contents, None)" by simp
    then show ?thesis by simp
  qed
  from returns result show ?thesis by blast
qed

theorem BatchEmbed_all_succeed_witness:
  "0 < maxPoolSize testEmbedder \<and>
   list_all (\<lambda>c. snd (fst (Embed testEmbedder () c)) = None)
     [String_val ''x'', String_val ''y'', String_val ''z''] \<and>
   BatchEmbed testEmbedder () [String_val ''x'', String_val ''y'', String_val ''z''] scheduleA
     = Returns ([expectedEmbedding, expectedEmbedding, expectedEmbedding], None)"
proof -
  have h1: "0 < maxPoolSize testEmbedder" by code_simp
  have h2: "list_all (\<lambda>c. snd (fst (Embed testEmbedder () c)) = None)
     [String_val ''x'', String_val ''y'', String_val ''z'']"
    by code_simp
  have r: "BatchEmbed testEmbedder () [String_val ''x'', String_val ''y'', String_val ''z''] scheduleA
     = Returns ([expectedEmbedding, expectedEmbedding, expectedEmbedding], None)"
    by code_simp
  from BatchEmbed_all_succeed[OF h1 h2] h1 h2 r show ?thesis by blast
qed

text \<open>
  Claim C2. With a positive ceiling and items on at least one of which \<^verbatim>\<open>Embed\<close> fails,
  \<^verbatim>\<open>BatchEmbed\<close> returns: every schedule can be continued to one after which it has
  returned. Under every schedule after which it has returned, it returns an error and the
  \<^verbatim>\<open>nil\<close> sequence, never the array of the vectors stored so far.
\<close>

theorem BatchEmbed_any_failure:
  assumes "0 < maxPoolSize e"
    and "list_ex (\<lambda>c. snd (fst (Embed e ctx c)) \<noteq> None) contents"
  shows "(\<forall>sched. \<exists>sched' err. BatchEmbed e ctx contents (sched @ sched') = Returns ([], Some err)) \<and>
         (\<forall>sched vs err. BatchEmbed e ctx contents sched = Returns (vs, err) \<longrightarrow>
            vs = [] \<and> err \<noteq> None)"
proof -
  from batch_result_failure[OF assms(2)]
  obtain err0 where res: "batch_result e ctx contents = ([], Some err0)" ..
  show ?thesis
  proof (intro conjI allI impI)
    fix sched
    show "\<exists>sched' err. BatchEmbed e ctx contents (sched @ sched') = Returns ([], Some err)"
      using BatchEmbed_completes[OF assms(1), of ctx contents sched] res by auto
  next
    fix sched vs err
    assume "BatchEmbed e ctx contents sched = Returns (vs, err)"
    then have r: "(vs, err) = ([], Some err0)" using BatchEmbed_Returns res by metis
    show "vs = []" using r by simp
    show "err \<noteq> None" using r by simp
  qed
qed

theorem BatchEmbed_any_failure_witness:
  "0 < maxPoolSize testEmbedder \<and>
   list_ex (\<lambda>c. snd (fst (Embed testEmbedder () c)) \<noteq> None)
     [String_val ''text1'', Int_val 123, String_val ''text3''] \<and>
   BatchEmbed testEmbedder () [String_val ''text1'', Int_val 123, String_val ''text3''] scheduleA
     = Returns ([], Some (BatchFailed UnsupportedType))"
proof -
  have h1: "0 < maxPoolSize testEmbedder" by code_simp
  have h2: "list_ex (\<lambda>c. snd (fst (Embed testEmbedder () c)) \<noteq> None)
     [String_val ''text1'', Int_val 123, String_val ''text3'']"
    by code_simp
  have r: "BatchEmbed testEmbedder () [String_val ''text1'', Int_val 123, String_val ''text3'']
       scheduleA
     = Returns ([], Some (BatchFailed UnsupportedType))"
    by code_simp
  from BatchEmbed_any_failure[OF h1 h2] h1 h2 r show ?thesis by blast
qed

text \<open>
  Claim C10. With a positive ceiling, when \<^verbatim>\<open>Embed\<close> fails with \<open>err\<close> on the item at index
  \<open>i\<close> and succeeds on every item before it, \<^verbatim>\<open>BatchEmbed\<close> returns, and under every
  schedule after which it has returned, the error it returns is \<open>err\<close>, wrapped, whatever
  \<^verbatim>\<open>Embed\<close> does on the items after index \<open>i\<close> and in whatever order the workers complete.
\<close>

theorem BatchEmbed_first_error_by_index:
  assumes "0 < maxPoolSize e" and "i < length contents"
    and "snd (fst (Embed e ctx (contents ! i))) = Some err"
    and "list_all (\<lambda>c. snd (fst (Embed e ctx c)) = None) (take i contents)"
  shows "(\<forall>sched. \<exists>sched'. BatchEmbed e ctx contents (sched @ sched')
            = Returns ([], Some (BatchFailed err))) \<and>
         (\<forall>sched r. BatchEmbed e ctx contents sched = Returns r \<longrightarrow>
            r = ([], Some (BatchFailed err)))"
proof -
  have res: "batch_result e ctx contents = ([], Some (BatchFailed err))"
    using assms(2-4) by (rule batch_result_first_failure)
  show ?thesis
  proof (intro conjI allI impI)
    fix sched
    show "\<exists>sched'. BatchEmbed e ctx contents (sched @ sched') = Returns ([], Some (BatchFailed err))"
      using BatchEmbed_completes[OF assms(1), of ctx contents sched] res by simp
  next
    fix sched r
    assume "BatchEmbed e ctx contents sched = Returns r"
    then show "r = ([], Some (BatchFailed err))" using BatchEmbed_Returns res by metis
  qed
qed

theorem BatchEmbed_first_error_by_index_witness:
  "0 < maxPoolSize failingEmbedder \<and>
   (1::nat) < length [String_val ''x'', String_val ''bad'', Int_val 123] \<and>
   snd (fst (Embed failingEmbedder () ([String_val ''x'', String_val ''bad'', Int_val 123] ! 1)))
     = Some (EmbeddingFailed (BackendFailure ''boom'')) \<and>
   snd (fst (Embed failingEmbedder () ([String_val ''x'', String_val ''bad'', Int_val 123] ! 2)))
     = Some UnsupportedType \<and>
   list_all (\<lambda>c. snd (fst (Embed failingEmbedder () c)) = None)
     (take 1 [String_val ''x'', String_val ''bad'', Int_val 123]) \<and>
   BatchEmbed failingEmbedder () [String_val ''x'', String_val ''bad'', Int_val 123] scheduleA
     = Returns ([], Some (BatchFailed (EmbeddingFailed (BackendFailure ''boom'')))) \<and>
   BatchEmbed failingEmbedder () [String_val ''x'', String_val ''bad'', Int_val 123] scheduleB
     = Returns ([], Some (BatchFailed (EmbeddingFailed (BackendFailure ''boom''))))"
proof -
  let ?cs = "[String_val ''x'', String_val ''bad'', Int_val 123]"
  have h1: "0 < maxPoolSize failingEmbedder" by code_simp
  have h2: "(1::nat) < length ?cs" by simp
  have h3: "snd (fst (Embed failingEmbedder () (?cs ! 1)))
     = Some (EmbeddingFailed (BackendFailure ''boom''))"
    by code_simp
  have h3': "snd (fst (Embed failingEmbedder () (?cs ! 2))) = Some UnsupportedType"
    by code_simp
  have h4: "list_all (\<lambda>c. snd (fst (Embed failingEmbedder () c)) = None) (take 1 ?cs)"
    by code_simp
  have a: "BatchEmbed failingEmbedder () ?cs scheduleA
     = Returns ([], Some (BatchFailed (EmbeddingFailed (BackendFailure ''boom''))))"
    by code_simp
  have b: "BatchEmbed failingEmbedder () ?cs scheduleB
     = Returns ([], Some (BatchFailed (EmbeddingFailed (BackendFailure ''boom''))))"
    by code_simp
  from BatchEmbed_first_error_by_index[OF h1 h2 h3 h4] h1 h2 h3 h3' h4 a b
  show ?thesis by blast
qed

end
